theory Spec2Isabelle
  imports Main
begin

section \<open>JavaScript values\<close>

text \<open>
  The five Toggle classes of the repository are written in untyped JavaScript, so the
  flag \<open>on\<close> is not a boolean by typing: it is whatever value the code stores.
  \<open>jsval\<close> are the values a caller can hand to a component through its props:
  primitives, and functions of the caller's own. A caller's function is opaque (its
  body is not part of the repository): it is identified by a name, calling it is
  recorded in the component's list of calls, and it is taken to leave the component
  alone. Numbers are integers here (no \<open>NaN\<close>).
\<close>

datatype jsval = JUndefined | JNull | JBool bool | JNum int | JStr string | JFn string

text \<open>
  \<open>entry\<close> are the values found in the objects a component builds (its state, the
  argument of its render function, the result of \<open>getTogglerProps\<close>): a caller's
  value, the component's own methods \<open>this.toggle\<close> and \<open>this.reset\<close>, or the
  closure \<open>(...args) => fns.forEach(fn => fn && fn(...args))\<close> that
  \<open>callAll(...fns)\<close> returns (part_000, lines 6-7), kept with its captured
  \<open>fns\<close>.
\<close>

datatype entry = Val jsval | ToggleFn | ResetFn | CallAll "entry list"

type_synonym props = "string \<rightharpoonup> jsval"
type_synonym obj = "string \<rightharpoonup> entry"

text \<open>JavaScript's truthiness, which \<open>!\<close>, \<open>&&\<close> and \<open>? :\<close> test.\<close>

fun truthy :: "jsval \<Rightarrow> bool" where
  "truthy JUndefined = False"
| "truthy JNull = False"
| "truthy (JBool b) = b"
| "truthy (JNum n) = (n \<noteq> 0)"
| "truthy (JStr s) = (s \<noteq> [])"
| "truthy (JFn f) = True"

fun truthy_entry :: "entry \<Rightarrow> bool" where
  "truthy_entry (Val v) = truthy v"
| "truthy_entry ToggleFn = True"
| "truthy_entry ResetFn = True"
| "truthy_entry (CallAll fns) = True"

text \<open>\<open>!x\<close>: always a boolean.\<close>

definition js_not :: "entry \<Rightarrow> entry" where
  "js_not x = Val (JBool (\<not> truthy_entry x))"

text \<open>Reading a property: a missing key reads as \<open>undefined\<close>.\<close>

definition getp :: "props \<Rightarrow> string \<Rightarrow> jsval" where
  "getp p k = (case p k of None \<Rightarrow> JUndefined | Some v \<Rightarrow> v)"

definition get :: "obj \<Rightarrow> string \<Rightarrow> entry" where
  "get ob k = (case ob k of None \<Rightarrow> Val JUndefined | Some v \<Rightarrow> v)"

datatype error = TypeError | Error string

section \<open>The Toggle components\<close>

text \<open>
  The repository holds five classes named \<open>Toggle\<close>:
  \<^item> \<open>StateInitializers\<close>: part_000, lines 9-61;
  \<^item> \<open>HigherOrderComponents\<close>: part_000, lines 99-113 (with \<open>withToggle\<close>);
  \<^item> \<open>FlexibleCompound\<close>: part_001, lines 61-114;
  \<^item> \<open>PropCollections\<close>: src/exercises/05.js, lines 6-28;
  \<^item> \<open>ProviderPattern\<close>: src/exercises/11.js, lines 24-65.
\<close>

datatype variant =
  StateInitializers | HigherOrderComponents | FlexibleCompound | PropCollections | ProviderPattern

text \<open>
  A component instance: its class, \<open>this.props\<close>, \<open>this.initialState\<close> (a field of
  the StateInitializers and ProviderPattern classes only; \<open>None\<close> where the class has
  no such field), \<open>this.state\<close>, and the calls made so far to the caller's functions,
  oldest first, each with its arguments.
\<close>

record component =
  variant :: variant
  props :: props
  initialState :: "obj option"
  state :: obj
  calls :: "(string \<times> entry list) list"

definition flag :: "component \<Rightarrow> entry" where
  "flag c = get (state c) ''on''"

text \<open>
  \<open>static defaultProps = {initialOn: false}\<close> (part_000, lines 12-14); the other four
  classes declare none.
\<close>

fun defaultProps :: "variant \<Rightarrow> props" where
  "defaultProps StateInitializers = [''initialOn'' \<mapsto> JBool False]"
| "defaultProps HigherOrderComponents = Map.empty"
| "defaultProps FlexibleCompound = Map.empty"
| "defaultProps PropCollections = Map.empty"
| "defaultProps ProviderPattern = Map.empty"

text \<open>
  The framework fills in a default for every key of \<open>defaultProps\<close> whose prop is
  \<open>undefined\<close> (missing, or passed as \<open>undefined\<close>); \<open>null\<close> is kept.
\<close>

definition resolveDefaultProps :: "props \<Rightarrow> props \<Rightarrow> props" where
  "resolveDefaultProps d p =
     (\<lambda>k. case d k of
            None \<Rightarrow> p k
          | Some dv \<Rightarrow> (if getp p k = JUndefined then Some dv else p k))"

text \<open>
  Construction runs the class's field initialisers in source order:
  \<^item> StateInitializers: \<open>initialState = {on: this.props.initialOn}\<close>,
    \<open>state = this.initialState\<close> (part_000, lines 18-20);
  \<^item> HigherOrderComponents: \<open>state = {on: false, toggle: this.toggle}\<close> (part_000, line 106);
  \<^item> FlexibleCompound: \<open>state = {on: false, toggle: this.toggle}\<close> (part_001, line 92);
  \<^item> PropCollections: \<open>state = {on: false}\<close> (05.js, line 7);
  \<^item> ProviderPattern: \<open>initialState = {on: false, toggle: this.toggle}\<close>,
    \<open>state = this.initialState\<close> (11.js, lines 47-51).
\<close>

fun Toggle :: "variant \<Rightarrow> props \<Rightarrow> component" where
  "Toggle StateInitializers p =
     (let ps = resolveDefaultProps (defaultProps StateInitializers) p;
          i = [''on'' \<mapsto> Val (getp ps ''initialOn'')]
      in \<lparr>variant = StateInitializers, props = ps, initialState = Some i, state = i, calls = []\<rparr>)"
| "Toggle HigherOrderComponents p =
     \<lparr>variant = HigherOrderComponents,
      props = resolveDefaultProps (defaultProps HigherOrderComponents) p,
      initialState = None,
      state = [''on'' \<mapsto> Val (JBool False), ''toggle'' \<mapsto> ToggleFn], calls = []\<rparr>"
| "Toggle FlexibleCompound p =
     \<lparr>variant = FlexibleCompound,
      props = resolveDefaultProps (defaultProps FlexibleCompound) p,
      initialState = None,
      state = [''on'' \<mapsto> Val (JBool False), ''toggle'' \<mapsto> ToggleFn], calls = []\<rparr>"
| "Toggle PropCollections p =
     \<lparr>variant = PropCollections,
      props = resolveDefaultProps (defaultProps PropCollections) p,
      initialState = None,
      state = [''on'' \<mapsto> Val (JBool False)], calls = []\<rparr>"
| "Toggle ProviderPattern p =
     (let i = [''on'' \<mapsto> Val (JBool False), ''toggle'' \<mapsto> ToggleFn]
      in \<lparr>variant = ProviderPattern,
          props = resolveDefaultProps (defaultProps ProviderPattern) p,
          initialState = Some i, state = i, calls = []\<rparr>)"

subsection \<open>setState, toggle, reset\<close>

text \<open>
  \<open>this.setState(updater, callback)\<close> is the framework's. This definition is the
  call that is the only one of its batch (the only update its event handler makes, or a
  call outside any handler): the updater is applied to the state the component holds,
  the object it returns is merged into that state (keys it does not name are kept), and
  the callback runs afterwards, reading the new \<open>this.state\<close>. The merge makes a
  new state object, so the object kept in \<open>this.initialState\<close> is never changed.
  Several calls made inside one event handler are queued and committed together: that
  is \<open>batch\<close> below, which agrees with this definition on a batch of one.
\<close>

definition setState ::
  "component \<Rightarrow> (obj \<Rightarrow> obj) \<Rightarrow> (component \<Rightarrow> error + component) \<Rightarrow> error + component" where
  "setState c updater callback = callback (c\<lparr>state := state c ++ updater (state c)\<rparr>)"

text \<open>
  Calling a value the caller supplied: a function of the caller's is recorded with its
  arguments; calling anything else (\<open>undefined\<close> for a prop that was not passed) is
  a TypeError.
\<close>

fun invoke :: "component \<Rightarrow> jsval \<Rightarrow> entry list \<Rightarrow> error + component" where
  "invoke c (JFn f) args = Inr (c\<lparr>calls := calls c @ [(f, args)]\<rparr>)"
| "invoke c JUndefined args = Inl TypeError"
| "invoke c JNull args = Inl TypeError"
| "invoke c (JBool b) args = Inl TypeError"
| "invoke c (JNum n) args = Inl TypeError"
| "invoke c (JStr s) args = Inl TypeError"

text \<open>
  \<open>toggle = () => this.setState(({on}) => ({on: !on}), () => this.props.onToggle(this.state.on))\<close>:
  the same text in all five classes (part_000, lines 25-29 and 101-105; part_001,
  lines 87-91; 05.js, lines 8-12; 11.js, lines 41-45).
\<close>

definition toggle :: "component \<Rightarrow> error + component" where
  "toggle c =
     setState c
       (\<lambda>prev. [''on'' \<mapsto> js_not (get prev ''on'')])
       (\<lambda>this. invoke this (getp (props this) ''onToggle'') [get (state this) ''on''])"

text \<open>
  \<open>reset = () => { this.setState(() => (this.initialState), () => this.props.onReset(this.state.on)) }\<close>
  (part_000, lines 39-45): a method of the StateInitializers class only. An updater
  that returns \<open>undefined\<close> changes nothing, which is the \<open>None\<close> branch; it is
  never taken for a StateInitializers component.
\<close>

definition reset :: "component \<Rightarrow> error + component" where
  "reset c =
     setState c
       (\<lambda>prev. case initialState c of None \<Rightarrow> Map.empty | Some i \<Rightarrow> i)
       (\<lambda>this. invoke this (getp (props this) ''onReset'') [get (state this) ''on''])"

subsection \<open>Sequences of operations\<close>

datatype action = Flip | Reset

text \<open>
  One user operation. Only StateInitializers has a \<open>reset\<close> method; in the other
  classes \<open>reset\<close> is \<open>undefined\<close> and calling it is a TypeError.
\<close>

fun step :: "action \<Rightarrow> component \<Rightarrow> error + component" where
  "step Flip c = toggle c"
| "step Reset c = (if variant c = StateInitializers then reset c else Inl TypeError)"

text \<open>Operations one after the other; the first error ends the run.\<close>

fun run :: "action list \<Rightarrow> component \<Rightarrow> error + component" where
  "run [] c = Inr c"
| "run (a # as) c = (case step a c of Inl e \<Rightarrow> Inl e | Inr c' \<Rightarrow> run as c')"

text \<open>The flag after a run, or the error that ended it.\<close>

definition flag_after :: "action list \<Rightarrow> component \<Rightarrow> error + entry" where
  "flag_after as c = (case run as c of Inl e \<Rightarrow> Inl e | Inr c' \<Rightarrow> Inr (flag c'))"

text \<open>The argument lists with which the caller's function \<open>f\<close> has been called, oldest first.\<close>

definition notifications :: "string \<Rightarrow> component \<Rightarrow> entry list list" where
  "notifications f c = map snd (filter (\<lambda>call. fst call = f) (calls c))"

subsection \<open>callAll and getTogglerProps (StateInitializers)\<close>

text \<open>
  Calling an entry with arguments. For the closure of \<open>callAll\<close> (part_000, lines 6-7)
  this is \<open>fns.forEach(fn => fn && fn(...args))\<close>: every truthy \<open>fn\<close> is called
  with the same \<open>args\<close>, in order, and a falsy one is skipped. \<open>toggle\<close> and
  \<open>reset\<close> take no parameters, so they ignore the arguments. An exception ends
  the loop. Here each \<open>toggle\<close> and \<open>reset\<close> is committed as it is called;
  \<open>handle\<close> below is the same closure run as an event handler, its updates
  batched.
\<close>

fun call :: "component \<Rightarrow> entry \<Rightarrow> entry list \<Rightarrow> error + component"
  and forEach :: "component \<Rightarrow> entry list \<Rightarrow> entry list \<Rightarrow> error + component" where
  "call c (Val v) args = invoke c v args"
| "call c ToggleFn args = toggle c"
| "call c ResetFn args = reset c"
| "call c (CallAll fns) args = forEach c fns args"
| "forEach c [] args = Inr c"
| "forEach c (fn # fns) args =
     (if truthy_entry fn
      then (case call c fn args of Inl e \<Rightarrow> Inl e | Inr c' \<Rightarrow> forEach c' fns args)
      else forEach c fns args)"

text \<open>
  \<open>getTogglerProps = ({onClick, ...props} = {}) =>
     ({'aria-pressed': this.state.on, onClick: callAll(onClick, this.toggle), ...props})\<close>
  (part_000, lines 31-37). The argument is an object, or missing (\<open>None\<close>), in which
  case the default \<open>{}\<close> is taken. \<open>props\<close> is the argument without its
  \<open>onClick\<close>; being spread last, its keys win over the two written before it.
\<close>

definition getTogglerProps :: "component \<Rightarrow> obj option \<Rightarrow> obj" where
  "getTogglerProps c arg =
     (let a = (case arg of None \<Rightarrow> Map.empty | Some a \<Rightarrow> a);
          onClick = get a ''onClick'';
          rest = a |` (- {''onClick''})
      in [''aria-pressed'' \<mapsto> get (state c) ''on'',
          ''onClick'' \<mapsto> CallAll [onClick, ToggleFn]] ++ rest)"

subsection \<open>render (PropCollections)\<close>

text \<open>
  \<open>render() { return this.props.children({on: this.state.on, toggle: this.toggle}) }\<close>
  (05.js, lines 13-27): the render function \<open>children\<close> is applied to an object of
  two keys.
\<close>

definition render_PropCollections :: "component \<Rightarrow> (obj \<Rightarrow> 'r) \<Rightarrow> 'r" where
  "render_PropCollections c children =
     children [''on'' \<mapsto> get (state c) ''on'', ''toggle'' \<mapsto> ToggleFn]"

section \<open>Context: providers and consumers\<close>

text \<open>
  What a consumer of \<open>ToggleContext\<close> is handed: an object, or a primitive or function
  of the caller's.
\<close>

datatype ctx = CtxObj obj | CtxVal jsval

text \<open>
  \<open>const ToggleContext = React.createContext()\<close> (part_000, line 97; part_001, line 43;
  11.js, line 6) gives no default value: a consumer with no provider above it is handed
  \<open>undefined\<close>.
\<close>

definition no_provider :: ctx where
  "no_provider = CtxVal JUndefined"

fun truthy_ctx :: "ctx \<Rightarrow> bool" where
  "truthy_ctx (CtxObj ob) = True"
| "truthy_ctx (CtxVal v) = truthy v"

text \<open>
  \<open>contextValue.on\<close>: reading a property of \<open>undefined\<close> or \<open>null\<close> is a
  TypeError; a primitive has no property \<open>on\<close>, and neither has a function of the
  caller's (taken to carry no properties of its own).
\<close>

fun context_on :: "ctx \<Rightarrow> error + entry" where
  "context_on (CtxObj ob) = Inr (get ob ''on'')"
| "context_on (CtxVal JUndefined) = Inl TypeError"
| "context_on (CtxVal JNull) = Inl TypeError"
| "context_on (CtxVal (JBool b)) = Inr (Val JUndefined)"
| "context_on (CtxVal (JNum n)) = Inr (Val JUndefined)"
| "context_on (CtxVal (JStr s)) = Inr (Val JUndefined)"
| "context_on (CtxVal (JFn f)) = Inr (Val JUndefined)"

text \<open>
  The value each class provides to its descendants:
  \<^item> HigherOrderComponents: \<open><ToggleContext.Provider value={this.state} {...this.props} />\<close>
    (part_000, lines 108-112);
  \<^item> ProviderPattern: \<open><ToggleContext.Provider value={this.state} {...rest}>\<close>, where
    \<open>rest\<close> is the props without \<open>children\<close> (11.js, lines 53-64);
  \<^item> FlexibleCompound: \<open>value={{on: this.state.on, toggle: this.toggle}}\<close> (part_001,
    lines 108-112).
  In the first two the props are spread after \<open>value\<close>, so a \<open>value\<close> prop of the
  caller's replaces the state. StateInitializers and PropCollections render no provider.
\<close>

fun provided :: "component \<Rightarrow> ctx option" where
  "provided c =
     (case variant c of
        HigherOrderComponents \<Rightarrow>
          Some (case props c ''value'' of None \<Rightarrow> CtxObj (state c) | Some v \<Rightarrow> CtxVal v)
      | ProviderPattern \<Rightarrow>
          Some (case props c ''value'' of None \<Rightarrow> CtxObj (state c) | Some v \<Rightarrow> CtxVal v)
      | FlexibleCompound \<Rightarrow>
          Some (CtxObj [''on'' \<mapsto> get (state c) ''on'', ''toggle'' \<mapsto> ToggleFn])
      | StateInitializers \<Rightarrow> None
      | PropCollections \<Rightarrow> None)"

text \<open>
  \<open>ToggleConsumer\<close> (part_001, lines 45-59; 11.js, lines 8-22, the same text): the
  function it gives the framework's consumer throws when the context value is falsy and
  otherwise applies \<open>props.children\<close> to it.
\<close>

definition ToggleConsumer :: "ctx \<Rightarrow> (ctx \<Rightarrow> 'r) \<Rightarrow> error + 'r" where
  "ToggleConsumer context children =
     (if \<not> truthy_ctx context
      then Inl (Error ''Toggle compound components cannot be rendered outside the Toggle component'')
      else Inr (children context))"

text \<open>
  What each class exposes for consuming the context value:
  \<^item> HigherOrderComponents: \<open>static Consumer = ToggleContext.Consumer\<close> (part_000,
    line 100), the framework's own consumer, which applies its child function to the
    context value as it is;
  \<^item> ProviderPattern: \<open>static Consumer = ToggleConsumer\<close> (11.js, line 27);
  \<^item> FlexibleCompound: \<open>ToggleConsumer\<close>, used by \<open>On\<close>, \<open>Off\<close> and
    \<open>Button\<close> (part_001, lines 65-81);
  \<^item> StateInitializers and PropCollections: none.
\<close>

fun Toggle_Consumer :: "variant \<Rightarrow> ctx \<Rightarrow> (ctx \<Rightarrow> 'r) \<Rightarrow> (error + 'r) option" where
  "Toggle_Consumer HigherOrderComponents context children = Some (Inr (children context))"
| "Toggle_Consumer ProviderPattern context children = Some (ToggleConsumer context children)"
| "Toggle_Consumer FlexibleCompound context children = Some (ToggleConsumer context children)"
| "Toggle_Consumer StateInitializers context children = None"
| "Toggle_Consumer PropCollections context children = None"

text \<open>
  \<open>withToggle(Component)\<close> (part_000, lines 115-159): the wrapper renders
  \<open><Component toggle={context} {...props} ref={ref}/>\<close> inside \<open>Toggle.Consumer\<close>.
  \<open>Component\<close> is given here as a function of its \<open>toggle\<close> prop and of the
  wrapper's props; a \<open>toggle\<close> prop of the wrapper's own, spread later, replaces the
  context value.
\<close>

definition withToggle :: "(ctx \<Rightarrow> props \<Rightarrow> 'r) \<Rightarrow> props \<Rightarrow> ctx \<Rightarrow> (error + 'r) option" where
  "withToggle Component wprops context =
     Toggle_Consumer HigherOrderComponents context
       (\<lambda>context. Component (case wprops ''toggle'' of None \<Rightarrow> context | Some v \<Rightarrow> CtxVal v) wprops)"

text \<open>
  \<open>Toggle.On\<close> and \<open>Toggle.Off\<close> (part_001, lines 65-72; 11.js, lines 28-35):
  \<open>contextValue => (contextValue.on ? children : null)\<close> and
  \<open>contextValue => (!contextValue.on ? children : null)\<close> inside the checking
  consumer. \<open>None\<close> is \<open>null\<close>: nothing is rendered.
\<close>

definition Toggle_On :: "'a \<Rightarrow> ctx \<Rightarrow> error + 'a option" where
  "Toggle_On children context =
     (case ToggleConsumer context
             (\<lambda>contextValue. case context_on contextValue of
                                Inl e \<Rightarrow> Inl e
                              | Inr on \<Rightarrow> Inr (if truthy_entry on then Some children else None)) of
        Inl e \<Rightarrow> Inl e
      | Inr r \<Rightarrow> r)"

definition Toggle_Off :: "'a \<Rightarrow> ctx \<Rightarrow> error + 'a option" where
  "Toggle_Off children context =
     (case ToggleConsumer context
             (\<lambda>contextValue. case context_on contextValue of
                                Inl e \<Rightarrow> Inl e
                              | Inr on \<Rightarrow> Inr (if \<not> truthy_entry on then Some children else None)) of
        Inl e \<Rightarrow> Inl e
      | Inr r \<Rightarrow> r)"

section \<open>Several updates in one event handler\<close>

text \<open>
  While the framework runs one of its event handlers it batches the \<open>setState\<close>
  calls the handler makes: a call only queues its updater and its callback. When the
  handler returns, the queued updaters are applied in order, each to the state left by
  the one before it, and each result is merged; then the queued callbacks run in order,
  each reading \<open>this.state\<close> as it is then, after the last update. \<open>setState\<close>
  above is the case of a call that is the only one of its batch.

  The two \<open>setState\<close> calls of the source queue these updaters:
  \<open>({on}) => ({on: !on})\<close> for \<open>toggle\<close> and \<open>() => (this.initialState)\<close> for
  \<open>reset\<close>; their callbacks call the props \<open>onToggle\<close> and \<open>onReset\<close> with
  \<open>this.state.on\<close>.
\<close>

fun updater :: "component \<Rightarrow> action \<Rightarrow> obj \<Rightarrow> obj" where
  "updater c Flip prev = [''on'' \<mapsto> js_not (get prev ''on'')]"
| "updater c Reset prev = (case initialState c of None \<Rightarrow> Map.empty | Some i \<Rightarrow> i)"

fun observer :: "action \<Rightarrow> string" where
  "observer Flip = ''onToggle''"
| "observer Reset = ''onReset''"

fun apply_updates :: "component \<Rightarrow> action list \<Rightarrow> obj \<Rightarrow> obj" where
  "apply_updates c [] s = s"
| "apply_updates c (a # as) s = apply_updates c as (s ++ updater c a s)"

fun run_callbacks :: "action list \<Rightarrow> component \<Rightarrow> error + component" where
  "run_callbacks [] c = Inr c"
| "run_callbacks (a # as) c =
     (case invoke c (getp (props c) (observer a)) [get (state c) ''on''] of
        Inl e \<Rightarrow> Inl e
      | Inr c' \<Rightarrow> run_callbacks as c')"

text \<open>The end of the handler: the queue \<open>q\<close> is committed.\<close>

definition commit :: "action list \<Rightarrow> component \<Rightarrow> error + component" where
  "commit q c = run_callbacks q (c\<lparr>state := apply_updates c q (state c)\<rparr>)"

text \<open>
  One event handler that calls the methods named by \<open>as\<close>, in order (\<open>toggle\<close> for
  \<open>Flip\<close>, \<open>reset\<close> for \<open>Reset\<close>). As in \<open>step\<close>, only StateInitializers has a
  \<open>reset\<close> to call.
\<close>

definition batch :: "action list \<Rightarrow> component \<Rightarrow> error + component" where
  "batch as c =
     (if Reset \<in> set as \<and> variant c \<noteq> StateInitializers then Inl TypeError else commit as c)"

text \<open>
  An entry used as an event handler: \<open>call\<close> with the updates queued instead of
  committed one by one. A function of the caller's runs (and is recorded) at once, in
  the handler; \<open>toggle\<close> and \<open>reset\<close> add to the queue, which is committed when
  the handler has returned.
\<close>

fun enqueue :: "component \<Rightarrow> action list \<Rightarrow> entry \<Rightarrow> entry list \<Rightarrow> error + component \<times> action list"
  and enqueue_each ::
    "component \<Rightarrow> action list \<Rightarrow> entry list \<Rightarrow> entry list \<Rightarrow> error + component \<times> action list" where
  "enqueue c q (Val v) args = (case invoke c v args of Inl e \<Rightarrow> Inl e | Inr c' \<Rightarrow> Inr (c', q))"
| "enqueue c q ToggleFn args = Inr (c, q @ [Flip])"
| "enqueue c q ResetFn args = Inr (c, q @ [Reset])"
| "enqueue c q (CallAll fns) args = enqueue_each c q fns args"
| "enqueue_each c q [] args = Inr (c, q)"
| "enqueue_each c q (fn # fns) args =
     (if truthy_entry fn
      then (case enqueue c q fn args of
              Inl e \<Rightarrow> Inl e
            | Inr (c', q') \<Rightarrow> enqueue_each c' q' fns args)
      else enqueue_each c q fns args)"

definition handle :: "component \<Rightarrow> entry \<Rightarrow> entry list \<Rightarrow> error + component" where
  "handle c fn args =
     (case enqueue c [] fn args of Inl e \<Rightarrow> Inl e | Inr (c', q) \<Rightarrow> commit q c')"

section \<open>Inputs and invariants of the statements\<close>

text \<open>
  The props the \<open>Usage\<close> demo of the StateInitializers file hands to \<open>Toggle\<close> when
  it is given none itself (part_000, lines 66-86): \<open>initialOn = false\<close>, and two
  logging functions as \<open>onToggle\<close> and \<open>onReset\<close>.
\<close>

definition usage_props :: props where
  "usage_props =
     [''initialOn'' \<mapsto> JBool False, ''onToggle'' \<mapsto> JFn ''logToggle'',
      ''onReset'' \<mapsto> JFn ''logReset'']"

text \<open>A value that is \<open>true\<close> or \<open>false\<close>.\<close>

fun is_boolean :: "entry \<Rightarrow> bool" where
  "is_boolean (Val (JBool b)) = True"
| "is_boolean (Val JUndefined) = False"
| "is_boolean (Val JNull) = False"
| "is_boolean (Val (JNum n)) = False"
| "is_boolean (Val (JStr s)) = False"
| "is_boolean (Val (JFn f)) = False"
| "is_boolean ToggleFn = False"
| "is_boolean ResetFn = False"
| "is_boolean (CallAll fns) = False"

text \<open>The caller passes a boolean as \<open>initialOn\<close>, or leaves it out.\<close>

definition boolean_initialOn :: "props \<Rightarrow> bool" where
  "boolean_initialOn p =
     (getp p ''initialOn'' = JUndefined \<or> is_boolean (Val (getp p ''initialOn'')))"

section \<open>Basic facts\<close>

lemmas eval_defs = toggle_def reset_def setState_def getp_def resolveDefaultProps_def
  flag_def get_def js_not_def flag_after_def usage_props_def notifications_def Let_def

lemma is_boolean_iff: "is_boolean e = (\<exists>b. e = Val (JBool b))"
  by (cases e rule: is_boolean.cases) simp_all

subsection \<open>Construction\<close>

lemma props_Toggle: "props (Toggle v p) = resolveDefaultProps (defaultProps v) p"
  by (cases v) (simp_all add: Let_def)

lemma getp_props_Toggle:
  "k \<noteq> ''initialOn'' \<Longrightarrow> getp (props (Toggle v p)) k = getp p k"
  unfolding props_Toggle by (cases v) (simp_all add: getp_def resolveDefaultProps_def)

lemma handlers_Toggle:
  "getp (props (Toggle v p)) ''onToggle'' = getp p ''onToggle''"
  "getp (props (Toggle v p)) ''onReset'' = getp p ''onReset''"
  by (rule getp_props_Toggle, simp)+

lemma flag_Toggle:
  "flag (Toggle v p) =
     Val (if v = StateInitializers \<and> getp p ''initialOn'' \<noteq> JUndefined
          then getp p ''initialOn'' else JBool False)"
  by (cases v) (simp_all add: flag_def get_def getp_def resolveDefaultProps_def Let_def)

lemma variant_Toggle: "variant (Toggle v p) = v"
  by (cases v) (simp_all add: Let_def)

lemma initialState_Toggle_boolean:
  assumes "v = StateInitializers \<longrightarrow> boolean_initialOn p"
  shows "\<forall>i. initialState (Toggle v p) = Some i \<longrightarrow> (\<exists>b. i ''on'' = Some (Val (JBool b)))"
  using assms
  by (cases v)
     (auto simp: Let_def boolean_initialOn_def is_boolean_iff getp_def resolveDefaultProps_def
           split: option.splits)

lemma flag_Toggle_boolean:
  assumes "v = StateInitializers \<longrightarrow> boolean_initialOn p"
  shows "is_boolean (flag (Toggle v p))"
  using assms by (auto simp: flag_Toggle boolean_initialOn_def is_boolean_iff)

subsection \<open>One toggle, one reset\<close>

text \<open>With an \<open>onToggle\<close> function among the props, \<open>toggle\<close> returns this component.\<close>

lemma toggle_eq:
  "getp (props c) ''onToggle'' = JFn f \<Longrightarrow>
   toggle c = Inr (c\<lparr>state := (state c)(''on'' \<mapsto> js_not (flag c)),
                      calls := calls c @ [(f, [js_not (flag c)])]\<rparr>)"
  by (simp add: toggle_def setState_def flag_def get_def map_add_def fun_eq_iff)

text \<open>
  Without one, the call \<open>this.props.onToggle(...)\<close> in the callback throws (after the
  state was updated).
\<close>

lemma toggle_fail:
  "\<forall>f. getp (props c) ''onToggle'' \<noteq> JFn f \<Longrightarrow> toggle c = Inl TypeError"
  by (cases "getp (props c) ''onToggle''") (simp_all add: toggle_def setState_def)

lemma toggle_flag: "toggle c = Inr c' \<Longrightarrow> flag c' = js_not (flag c)"
  by (cases "getp (props c) ''onToggle''")
     (auto simp: toggle_def setState_def flag_def get_def)

lemma reset_eq:
  "getp (props c) ''onReset'' = JFn r \<Longrightarrow> initialState c = Some i \<Longrightarrow>
   reset c = Inr (c\<lparr>state := state c ++ i,
                     calls := calls c @ [(r, [get (state c ++ i) ''on''])]\<rparr>)"
  by (simp add: reset_def setState_def)

lemma reset_initial:
  assumes "reset c = Inr c'" and "initialState c = Some i" and "i ''on'' = Some x"
  shows "flag c' = x"
proof -
  obtain r where "getp (props c) ''onReset'' = JFn r"
    using assms(1) by (cases "getp (props c) ''onReset''") (simp_all add: reset_def setState_def)
  from reset_eq [OF this assms(2)] assms(1,3) show ?thesis
    by (auto simp: flag_def get_def)
qed

subsection \<open>What no operation changes\<close>

lemma toggle_frame:
  "toggle c = Inr c' \<Longrightarrow>
   variant c' = variant c \<and> props c' = props c \<and> initialState c' = initialState c"
  by (cases "getp (props c) ''onToggle''") (auto simp: toggle_def setState_def)

lemma reset_frame:
  "reset c = Inr c' \<Longrightarrow>
   variant c' = variant c \<and> props c' = props c \<and> initialState c' = initialState c"
  by (cases "getp (props c) ''onReset''") (auto simp: reset_def setState_def)

lemma step_frame:
  "step a c = Inr c' \<Longrightarrow>
   variant c' = variant c \<and> props c' = props c \<and> initialState c' = initialState c"
  by (cases a) (auto dest: toggle_frame reset_frame split: if_splits)

lemma run_frame:
  "run as c = Inr c' \<Longrightarrow>
   variant c' = variant c \<and> props c' = props c \<and> initialState c' = initialState c"
proof (induction as arbitrary: c)
  case Nil
  then show ?case by simp
next
  case (Cons a as)
  then obtain c1 where s: "step a c = Inr c1" and r: "run as c1 = Inr c'"
    by (auto split: sum.splits)
  from Cons.IH [OF r] step_frame [OF s] show ?case by simp
qed

lemma run_append:
  "run (as @ bs) c = (case run as c of Inl e \<Rightarrow> Inl e | Inr c' \<Rightarrow> run bs c')"
  by (induction as arbitrary: c) (auto split: sum.splits)

subsection \<open>Runs of flips\<close>

lemma flips_total:
  "getp (props c) ''onToggle'' = JFn f \<Longrightarrow> \<exists>c'. run (replicate n Flip) c = Inr c'"
proof (induction n arbitrary: c)
  case 0
  then show ?case by simp
next
  case (Suc n)
  let ?c1 = "c\<lparr>state := (state c)(''on'' \<mapsto> js_not (flag c)),
                calls := calls c @ [(f, [js_not (flag c)])]\<rparr>"
  have t: "toggle c = Inr ?c1" using Suc.prems by (rule toggle_eq)
  have "getp (props ?c1) ''onToggle'' = JFn f" using Suc.prems by simp
  from Suc.IH [OF this] show ?case using t by simp
qed

lemma flips_parity_aux:
  "getp (props c) ''onToggle'' = JFn f \<Longrightarrow> flag c = Val (JBool b) \<Longrightarrow>
   \<exists>c'. run (replicate n Flip) c = Inr c'
        \<and> flag c' = Val (JBool (if even n then b else \<not> b))"
proof (induction n arbitrary: c b)
  case 0
  then show ?case by simp
next
  case (Suc n)
  let ?c1 = "c\<lparr>state := (state c)(''on'' \<mapsto> js_not (flag c)),
                calls := calls c @ [(f, [js_not (flag c)])]\<rparr>"
  have t: "toggle c = Inr ?c1" using Suc.prems(1) by (rule toggle_eq)
  have p1: "getp (props ?c1) ''onToggle'' = JFn f" using Suc.prems(1) by simp
  have f1: "flag ?c1 = Val (JBool (\<not> b))"
    using Suc.prems(2) by (simp add: flag_def get_def js_not_def)
  from Suc.IH [OF p1 f1] obtain c' where
    "run (replicate n Flip) ?c1 = Inr c'"
    "flag c' = Val (JBool (if even n then \<not> b else \<not> \<not> b))" by blast
  then show ?case using t by auto
qed

subsection \<open>The flag stays a boolean\<close>

lemma step_boolean:
  assumes "step a c = Inr c'" and "is_boolean (flag c)"
    and "\<forall>i. initialState c = Some i \<longrightarrow> (\<exists>b. i ''on'' = Some (Val (JBool b)))"
  shows "is_boolean (flag c')"
proof (cases a)
  case Flip
  with assms(1) have "flag c' = js_not (flag c)" by (simp add: toggle_flag)
  then show ?thesis by (simp add: js_not_def)
next
  case Reset
  with assms(1) have r: "reset c = Inr c'" by (simp split: if_splits)
  show ?thesis
  proof (cases "initialState c")
    case None
    obtain g where "getp (props c) ''onReset'' = JFn g"
      using r by (cases "getp (props c) ''onReset''") (simp_all add: reset_def setState_def)
    with r None have "flag c' = flag c"
      by (auto simp: reset_def setState_def flag_def)
    with assms(2) show ?thesis by simp
  next
    case (Some i)
    with assms(3) obtain b where "i ''on'' = Some (Val (JBool b))" by blast
    from reset_initial [OF r Some this] show ?thesis by simp
  qed
qed

lemma run_boolean:
  assumes "run as c = Inr c'" and "is_boolean (flag c)"
    and "\<forall>i. initialState c = Some i \<longrightarrow> (\<exists>b. i ''on'' = Some (Val (JBool b)))"
  shows "is_boolean (flag c')"
  using assms
proof (induction as arbitrary: c)
  case Nil
  then show ?case by simp
next
  case (Cons a as)
  then obtain c1 where s: "step a c = Inr c1" and r: "run as c1 = Inr c'"
    by (auto split: sum.splits)
  have b1: "is_boolean (flag c1)" using s Cons.prems(2,3) by (rule step_boolean)
  have "initialState c1 = initialState c" using step_frame [OF s] by simp
  with Cons.prems(3) have "\<forall>i. initialState c1 = Some i \<longrightarrow> (\<exists>b. i ''on'' = Some (Val (JBool b)))"
    by simp
  with Cons.IH [OF r b1] show ?case by blast
qed

subsection \<open>Batches\<close>

text \<open>A batch of one update is the single call.\<close>

lemma commit_single_flip: "commit [Flip] c = toggle c"
  by (simp add: commit_def toggle_def setState_def split: sum.splits)

lemma commit_single_reset: "commit [Reset] c = reset c"
  by (simp add: commit_def reset_def setState_def split: sum.splits)

lemma batch_single: "batch [a] c = step a c"
  by (cases a) (simp_all add: batch_def commit_single_flip commit_single_reset)

lemma run_callbacks_eq:
  assumes "Flip \<in> set q \<longrightarrow> getp (props c) ''onToggle'' = JFn f"
    and "Reset \<in> set q \<longrightarrow> getp (props c) ''onReset'' = JFn r"
  shows "run_callbacks q c =
           Inr (c\<lparr>calls := calls c @ map (\<lambda>a. (case a of Flip \<Rightarrow> f | Reset \<Rightarrow> r, [get (state c) ''on''])) q\<rparr>)"
  using assms
proof (induction q arbitrary: c)
  case Nil
  then show ?case by simp
next
  case (Cons a q)
  show ?case
  proof (cases a)
    case Flip
    let ?c1 = "c\<lparr>calls := calls c @ [(f, [get (state c) ''on''])]\<rparr>"
    have "Flip \<in> set q \<longrightarrow> getp (props ?c1) ''onToggle'' = JFn f"
      "Reset \<in> set q \<longrightarrow> getp (props ?c1) ''onReset'' = JFn r"
      using Cons.prems by simp_all
    from Cons.IH [OF this] show ?thesis using Flip Cons.prems by simp
  next
    case Reset
    let ?c1 = "c\<lparr>calls := calls c @ [(r, [get (state c) ''on''])]\<rparr>"
    have "Flip \<in> set q \<longrightarrow> getp (props ?c1) ''onToggle'' = JFn f"
      "Reset \<in> set q \<longrightarrow> getp (props ?c1) ''onReset'' = JFn r"
      using Cons.prems by simp_all
    from Cons.IH [OF this] show ?thesis using Reset Cons.prems by simp
  qed
qed

lemma commit_eq:
  assumes "Flip \<in> set q \<longrightarrow> getp (props c) ''onToggle'' = JFn f"
    and "Reset \<in> set q \<longrightarrow> getp (props c) ''onReset'' = JFn r"
  shows "commit q c =
           Inr (c\<lparr>state := apply_updates c q (state c),
                  calls := calls c @ map (\<lambda>a. (case a of Flip \<Rightarrow> f | Reset \<Rightarrow> r,
                                               [get (apply_updates c q (state c)) ''on''])) q\<rparr>)"
proof -
  let ?c1 = "c\<lparr>state := apply_updates c q (state c)\<rparr>"
  have "Flip \<in> set q \<longrightarrow> getp (props ?c1) ''onToggle'' = JFn f"
    "Reset \<in> set q \<longrightarrow> getp (props ?c1) ''onReset'' = JFn r"
    using assms by simp_all
  from run_callbacks_eq [OF this] show ?thesis by (simp add: commit_def)
qed

lemma notifications_map:
  assumes "f \<noteq> r"
  shows "map snd (filter (\<lambda>call. fst call = f)
                    (map (\<lambda>a. (case a of Flip \<Rightarrow> f | Reset \<Rightarrow> r, v)) q)) =
           replicate (count_list q Flip) v"
    and "map snd (filter (\<lambda>call. fst call = r)
                    (map (\<lambda>a. (case a of Flip \<Rightarrow> f | Reset \<Rightarrow> r, v)) q)) =
           replicate (count_list q Reset) v"
  using assms by (induction q) (auto split: action.splits)

lemma apply_updates_append:
  "apply_updates c (as @ bs) s = apply_updates c bs (apply_updates c as s)"
  by (induction as arbitrary: s) simp_all

lemma apply_updates_flip_last:
  "get (apply_updates c (as @ [Flip]) s) ''on'' = js_not (get (apply_updates c as s) ''on'')"
  by (simp add: apply_updates_append get_def)

lemma apply_updates_reset_last:
  "initialState c = Some i \<Longrightarrow> i ''on'' = Some x \<Longrightarrow>
   get (apply_updates c (as @ [Reset]) s) ''on'' = x"
  by (simp add: apply_updates_append get_def)

lemma handle_reset_then_toggle:
  "handle c (CallAll [ResetFn, ToggleFn]) args = commit [Reset, Flip] c"
  by (simp add: handle_def)

lemma handle_toggle_twice:
  "handle c (CallAll [ToggleFn, ToggleFn]) args = commit [Flip, Flip] c"
  by (simp add: handle_def)

lemma handle_onClick_fn:
  "handle c (CallAll [Val (JFn g), ToggleFn]) args = call c (CallAll [Val (JFn g), ToggleFn]) args"
  by (simp add: handle_def commit_single_flip split: sum.splits)


lemmas eval_batch = batch_def commit_def handle_def

subsection \<open>getTogglerProps and the closure of callAll\<close>

lemma getTogglerProps_onClick:
  "getTogglerProps c (Some a) ''onClick'' = Some (CallAll [get a ''onClick'', ToggleFn])"
  by (simp add: getTogglerProps_def Let_def map_add_def restrict_map_def)

lemma getTogglerProps_aria:
  "getTogglerProps c (Some a) ''aria-pressed'' =
     Some (case a ''aria-pressed'' of None \<Rightarrow> flag c | Some v \<Rightarrow> v)"
  by (simp add: getTogglerProps_def Let_def map_add_def restrict_map_def flag_def
      split: option.splits)

lemma getTogglerProps_override:
  "k \<noteq> ''onClick'' \<Longrightarrow> a k = Some v \<Longrightarrow> getTogglerProps c (Some a) k = Some v"
  by (simp add: getTogglerProps_def Let_def map_add_def restrict_map_def)

lemma getTogglerProps_absent:
  "k \<noteq> ''onClick'' \<Longrightarrow> k \<noteq> ''aria-pressed'' \<Longrightarrow> a k = None \<Longrightarrow>
   getTogglerProps c (Some a) k = None"
  by (simp add: getTogglerProps_def Let_def map_add_def restrict_map_def)

lemma getTogglerProps_default: "getTogglerProps c None = getTogglerProps c (Some Map.empty)"
  by (simp add: getTogglerProps_def)

lemma call_onClick:
  "call c (CallAll [onClick, ToggleFn]) args =
     (if truthy_entry onClick
      then (case call c onClick args of Inl e \<Rightarrow> Inl e | Inr c' \<Rightarrow> call c' ToggleFn args)
      else call c ToggleFn args)"
  by (simp split: sum.splits)

lemma call_onClick_fn:
  "call c (CallAll [Val (JFn g), ToggleFn]) args = toggle (c\<lparr>calls := calls c @ [(g, args)]\<rparr>)"
  by (simp split: sum.splits)

subsection \<open>Consumers\<close>

lemma On_Off_not_both:
  "\<not> (Toggle_On kids cv = Inr (Some kids) \<and> Toggle_Off kids cv = Inr (Some kids))"
  by (cases "context_on cv")
     (auto simp: Toggle_On_def Toggle_Off_def ToggleConsumer_def split: if_splits)

text \<open>
  Unless the caller passes a \<open>value\<close> prop of its own, the three providing classes hand
  their descendants an object whose \<open>on\<close> is the component's flag.
\<close>

lemma provided_flag:
  "provided c = Some cv \<Longrightarrow> props c ''value'' = None \<Longrightarrow> context_on cv = Inr (flag c)"
  by (cases "variant c") (auto simp: flag_def get_def)

section \<open>The claims\<close>

text \<open>
  Claim C1 (amended). In every Toggle class and every state (with an \<open>onToggle\<close>
  function among the props), a \<open>toggle\<close> called in an event handler after the updates
  \<open>as\<close> and before the updates \<open>bs\<close> of the same handler sets the flag to the
  negation \<open>!on\<close> of the flag left by \<open>as\<close> (of the held flag when it is the
  first update), computed by its updater from that state. Once the handler's updates
  are committed, \<open>onToggle\<close> is called for this toggle, once, with the flag as it is
  then: the toggle's own new value when it is the last update of the handler, and in
  particular when it is the only one, where the batch is the single \<open>toggle\<close> call.
\<close>

theorem toggle_in_batch:
  assumes "getp (props c) ''onToggle'' = JFn f"
    and "Reset \<in> set (as @ bs) \<longrightarrow>
           variant c = StateInitializers \<and> getp (props c) ''onReset'' = JFn r"
  shows "\<exists>c'. batch (as @ Flip # bs) c = Inr c'
            \<and> state c' = apply_updates c (as @ Flip # bs) (state c)
            \<and> get (apply_updates c (as @ [Flip]) (state c)) ''on'' =
                js_not (get (apply_updates c as (state c)) ''on'')
            \<and> length (calls c') = length (calls c) + length as + 1 + length bs
            \<and> calls c' ! (length (calls c) + length as) = (f, [flag c'])
            \<and> (bs = [] \<longrightarrow> flag c' = js_not (get (apply_updates c as (state c)) ''on''))
            \<and> (as = [] \<and> bs = [] \<longrightarrow>
                  toggle c = Inr c' \<and> flag c' = js_not (flag c)
                  \<and> calls c' = calls c @ [(f, [flag c'])])
            \<and> variant c' = variant c \<and> props c' = props c \<and> initialState c' = initialState c"
proof -
  let ?q = "as @ Flip # bs"
  let ?s = "apply_updates c ?q (state c)"
  let ?c' = "c\<lparr>state := ?s,
               calls := calls c @ map (\<lambda>a. (case a of Flip \<Rightarrow> f | Reset \<Rightarrow> r, [get ?s ''on''])) ?q\<rparr>"
  have h1: "Flip \<in> set ?q \<longrightarrow> getp (props c) ''onToggle'' = JFn f" using assms(1) by simp
  have h2: "Reset \<in> set ?q \<longrightarrow> getp (props c) ''onReset'' = JFn r" using assms(2) by auto
  have ok: "\<not> (Reset \<in> set ?q \<and> variant c \<noteq> StateInitializers)" using assms(2) by auto
  have b: "batch ?q c = Inr ?c'"
    using commit_eq [OF h1 h2] ok by (simp add: batch_def)
  have st: "state ?c' = apply_updates c ?q (state c)" by simp
  have u: "get (apply_updates c (as @ [Flip]) (state c)) ''on'' =
             js_not (get (apply_updates c as (state c)) ''on'')"
    by (rule apply_updates_flip_last)
  have len: "length (calls ?c') = length (calls c) + length as + 1 + length bs" by simp
  have n: "calls ?c' ! (length (calls c) + length as) = (f, [flag ?c'])"
    by (simp add: nth_append flag_def)
  have l: "bs = [] \<longrightarrow> flag ?c' = js_not (get (apply_updates c as (state c)) ''on'')"
    by (simp add: flag_def apply_updates_flip_last)
  have s: "as = [] \<and> bs = [] \<longrightarrow>
             toggle c = Inr ?c' \<and> flag ?c' = js_not (flag c) \<and> calls ?c' = calls c @ [(f, [flag ?c'])]"
    using toggle_eq [OF assms(1)] by (auto simp: flag_def get_def)
  have fr: "variant ?c' = variant c \<and> props ?c' = props c \<and> initialState ?c' = initialState c"
    by simp
  show ?thesis
    by (intro exI [of _ ?c'] conjI) (rule b, rule st, rule u, rule len, rule n, rule l, rule s,
        (simp_all))
qed

theorem toggle_in_batch_witness:
  "\<exists>c'. batch [Flip, Flip] (Toggle PropCollections usage_props) = Inr c'
        \<and> flag c' = Val (JBool False)
        \<and> calls c' ! 0 = (''logToggle'', [Val (JBool False)])
        \<and> calls c' ! 1 = (''logToggle'', [Val (JBool False)])"
proof -
  let ?c = "Toggle PropCollections usage_props"
  have h: "getp (props ?c) ''onToggle'' = JFn ''logToggle''" by (simp add: eval_defs)
  have a: "Reset \<in> set ([] @ [Flip]) \<longrightarrow>
             variant ?c = StateInitializers \<and> getp (props ?c) ''onReset'' = JFn ''logReset''"
    by simp
  have b: "Reset \<in> set ([Flip] @ []) \<longrightarrow>
             variant ?c = StateInitializers \<and> getp (props ?c) ''onReset'' = JFn ''logReset''"
    by simp
  from toggle_in_batch [OF h a] obtain c1 where
    1: "batch ([] @ Flip # [Flip]) ?c = Inr c1"
    "state c1 = apply_updates ?c ([] @ Flip # [Flip]) (state ?c)"
    "calls c1 ! (length (calls ?c) + length ([]::action list)) = (''logToggle'', [flag c1])"
    by blast
  from toggle_in_batch [OF h b] obtain c2 where
    2: "batch ([Flip] @ Flip # []) ?c = Inr c2"
    "calls c2 ! (length (calls ?c) + length [Flip]) = (''logToggle'', [flag c2])"
    by blast
  from 1(1) 2(1) have e: "c2 = c1" by simp
  have f: "flag c1 = Val (JBool False)"
    using 1(2) by (simp add: flag_def get_def js_not_def)
  from 1 2 e f show ?thesis by (intro exI [of _ c1]) simp
qed

text \<open>
  Counterexample to C1 as stated: two toggles in one event handler (the closure
  \<open>callAll(toggle, toggle)\<close> that \<open>getTogglerProps({onClick: toggle})\<close> returns).
  The first toggle's new value is \<open>true\<close>, but its notification is handed
  \<open>false\<close>, the flag after the second.
\<close>

theorem stale_notification_counterexample:
  "map_sum id calls (batch [Flip, Flip] (Toggle StateInitializers usage_props)) =
     Inr [(''logToggle'', [Val (JBool False)]), (''logToggle'', [Val (JBool False)])]
   \<and> flag_after [Flip] (Toggle StateInitializers usage_props) = Inr (Val (JBool True))
   \<and> handle (Toggle StateInitializers usage_props) (CallAll [ToggleFn, ToggleFn]) [] =
       batch [Flip, Flip] (Toggle StateInitializers usage_props)"
  by (simp add: eval_defs eval_batch)

text \<open>
  Claim C2. For the StateInitializers Toggle (given \<open>onToggle\<close> and \<open>onReset\<close>
  functions), any number \<open>n\<close> of flips followed by \<open>reset\<close> succeeds and leaves the
  flag equal to the value captured at construction: the \<open>initialOn\<close> prop, or
  \<open>false\<close> when that prop is \<open>undefined\<close>.
\<close>

theorem reset_restores_initial:
  assumes "getp p ''onToggle'' = JFn f" and "getp p ''onReset'' = JFn r"
  shows "flag_after (replicate n Flip @ [Reset]) (Toggle StateInitializers p) =
           Inr (Val (if getp p ''initialOn'' = JUndefined then JBool False
                     else getp p ''initialOn''))"
proof -
  let ?c0 = "Toggle StateInitializers p"
  let ?x = "Val (if getp p ''initialOn'' = JUndefined then JBool False else getp p ''initialOn'')"
  have t: "getp (props ?c0) ''onToggle'' = JFn f" using assms(1) by (simp only: handlers_Toggle)
  have r: "getp (props ?c0) ''onReset'' = JFn r" using assms(2) by (simp only: handlers_Toggle)
  from flips_total [OF t, of n] obtain c where c: "run (replicate n Flip) ?c0 = Inr c" by blast
  from run_frame [OF c] have fr: "variant c = StateInitializers" "props c = props ?c0"
    "initialState c = Some (state ?c0)"
    by (simp_all add: Let_def)
  have on: "state ?c0 ''on'' = Some ?x"
    by (simp add: Let_def getp_def resolveDefaultProps_def)
  from r fr(2) have "getp (props c) ''onReset'' = JFn r" by simp
  from reset_eq [OF this fr(3)] obtain c' where c': "reset c = Inr c'" by blast
  from reset_initial [OF c' fr(3) on] have "flag c' = ?x" .
  with c c' fr(1) show ?thesis by (simp add: flag_after_def run_append)
qed

theorem reset_restores_initial_witness:
  "flag_after (replicate 3 Flip @ [Reset])
     (Toggle StateInitializers (usage_props(''initialOn'' \<mapsto> JBool True))) = Inr (Val (JBool True))"
proof -
  let ?p = "usage_props(''initialOn'' \<mapsto> JBool True)"
  have t: "getp ?p ''onToggle'' = JFn ''logToggle''" by (simp add: getp_def usage_props_def)
  have r: "getp ?p ''onReset'' = JFn ''logReset''" by (simp add: getp_def usage_props_def)
  have i: "getp ?p ''initialOn'' = JBool True" by (simp add: getp_def)
  show ?thesis using reset_restores_initial [OF t r, of 3] by (simp only: i) simp
qed

text \<open>
  Claim C3 (amended). Outside a provider the context value is \<open>undefined\<close>. The
  consumers of the ProviderPattern and FlexibleCompound files, and their \<open>On\<close> and
  \<open>Off\<close>, then throw an Error, whatever the consuming function. The
  HigherOrderComponents file exposes the framework's own consumer: it throws nothing and
  hands \<open>undefined\<close> to the consuming function, so a component wrapped by
  \<open>withToggle\<close> is rendered with \<open>toggle = undefined\<close>.
\<close>

theorem consume_outside_provider:
  "Toggle_Consumer ProviderPattern no_provider children =
     Some (Inl (Error ''Toggle compound components cannot be rendered outside the Toggle component''))
   \<and> Toggle_Consumer FlexibleCompound no_provider children =
     Some (Inl (Error ''Toggle compound components cannot be rendered outside the Toggle component''))
   \<and> Toggle_On kids no_provider =
     Inl (Error ''Toggle compound components cannot be rendered outside the Toggle component'')
   \<and> Toggle_Off kids no_provider =
     Inl (Error ''Toggle compound components cannot be rendered outside the Toggle component'')
   \<and> Toggle_Consumer HigherOrderComponents no_provider children = Some (Inr (children no_provider))
   \<and> withToggle Component Map.empty no_provider = Some (Inr (Component no_provider Map.empty))"
  by (simp add: ToggleConsumer_def no_provider_def Toggle_On_def Toggle_Off_def withToggle_def)

text \<open>
  Counterexample to C3 as stated: consuming through \<open>Toggle.Consumer\<close> of the
  HigherOrderComponents file outside a provider returns normally, with \<open>undefined\<close>.
\<close>

theorem hoc_consumer_counterexample:
  "Toggle_Consumer HigherOrderComponents no_provider id = Some (Inr no_provider)"
  by simp

text \<open>
  Claim C4. In every Toggle class (with an \<open>onToggle\<close> function among the props), from
  every boolean flag \<open>b\<close> and for every \<open>n\<close>, \<open>n\<close> flips succeed and leave the
  flag \<open>b\<close> when \<open>n\<close> is even and \<open>\<not> b\<close> when \<open>n\<close> is odd.
\<close>

theorem flips_parity:
  assumes "getp (props c) ''onToggle'' = JFn f" and "flag c = Val (JBool b)"
  shows "flag_after (replicate n Flip) c = Inr (Val (JBool (if even n then b else \<not> b)))"
proof -
  from flips_parity_aux [OF assms, of n] obtain c' where
    "run (replicate n Flip) c = Inr c'" "flag c' = Val (JBool (if even n then b else \<not> b))"
    by blast
  then show ?thesis by (simp add: flag_after_def)
qed

theorem flips_parity_witness:
  "flag_after (replicate 4 Flip) (Toggle PropCollections usage_props) = Inr (Val (JBool False))
   \<and> flag_after (replicate 3 Flip) (Toggle PropCollections usage_props) = Inr (Val (JBool True))"
proof -
  let ?c = "Toggle PropCollections usage_props"
  have h: "getp (props ?c) ''onToggle'' = JFn ''logToggle''"
    by (simp add: eval_defs)
  have f: "flag ?c = Val (JBool False)" by (simp add: flag_def get_def)
  show ?thesis
    using flips_parity [OF h f, of 4] flips_parity [OF h f, of 3] by simp
qed

text \<open>
  Claim C5 (amended). One event handler that makes the updates \<open>as\<close> (with an
  \<open>onToggle\<close> function \<open>f\<close>, and for resets an \<open>onReset\<close> function \<open>r\<close>
  and an \<open>initialState\<close> holding \<open>on = x\<close>) makes exactly one call per update, in
  the order of the updates: \<open>f\<close> for a flip, \<open>r\<close> for a reset, so that with
  distinct functions neither operation fires the other's notification. The calls are
  made after all the updates are committed and each is handed the flag as it is then:
  the post-flip value when the last update is a flip, the restored value \<open>x\<close> when
  it is a reset, and so the operation's own value when it is the only update.
\<close>

theorem notifications_in_batch:
  assumes "getp (props c) ''onToggle'' = JFn f"
    and "Reset \<in> set as \<longrightarrow>
           variant c = StateInitializers \<and> getp (props c) ''onReset'' = JFn r
           \<and> initialState c = Some i \<and> i ''on'' = Some x"
  shows "\<exists>c'. batch as c = Inr c'
            \<and> calls c' = calls c @ map (\<lambda>a. (case a of Flip \<Rightarrow> f | Reset \<Rightarrow> r, [flag c'])) as
            \<and> (f \<noteq> r \<longrightarrow>
                  notifications f c' = notifications f c @ replicate (count_list as Flip) [flag c']
                  \<and> notifications r c' = notifications r c @ replicate (count_list as Reset) [flag c'])
            \<and> (\<forall>bs. as = bs @ [Flip] \<longrightarrow>
                  flag c' = js_not (get (apply_updates c bs (state c)) ''on''))
            \<and> (\<forall>bs. as = bs @ [Reset] \<longrightarrow> flag c' = x)
            \<and> (as = [Flip] \<longrightarrow> toggle c = Inr c' \<and> flag c' = js_not (flag c))
            \<and> (as = [Reset] \<longrightarrow> reset c = Inr c' \<and> flag c' = x)"
proof -
  let ?s = "apply_updates c as (state c)"
  let ?nm = "\<lambda>a. (case a of Flip \<Rightarrow> f | Reset \<Rightarrow> r, [get ?s ''on''])"
  let ?c' = "c\<lparr>state := ?s, calls := calls c @ map ?nm as\<rparr>"
  have h1: "Flip \<in> set as \<longrightarrow> getp (props c) ''onToggle'' = JFn f" using assms(1) by simp
  have h2: "Reset \<in> set as \<longrightarrow> getp (props c) ''onReset'' = JFn r" using assms(2) by simp
  have ok: "\<not> (Reset \<in> set as \<and> variant c \<noteq> StateInitializers)" using assms(2) by auto
  have b: "batch as c = Inr ?c'"
    using commit_eq [OF h1 h2] ok by (simp add: batch_def)
  have fl: "flag ?c' = get ?s ''on''" by (simp add: flag_def)
  have c: "calls ?c' = calls c @ map (\<lambda>a. (case a of Flip \<Rightarrow> f | Reset \<Rightarrow> r, [flag ?c'])) as"
    by (simp add: flag_def)
  have n: "f \<noteq> r \<longrightarrow>
             notifications f ?c' = notifications f c @ replicate (count_list as Flip) [flag ?c']
             \<and> notifications r ?c' = notifications r c @ replicate (count_list as Reset) [flag ?c']"
    by (simp add: notifications_def notifications_map fl)
  have lf: "\<forall>bs. as = bs @ [Flip] \<longrightarrow>
              flag ?c' = js_not (get (apply_updates c bs (state c)) ''on'')"
    by (auto simp: flag_def apply_updates_flip_last)
  have lr: "\<forall>bs. as = bs @ [Reset] \<longrightarrow> flag ?c' = x"
  proof (intro allI impI)
    fix bs assume e: "as = bs @ [Reset]"
    with assms(2) have "initialState c = Some i" "i ''on'' = Some x" by simp_all
    then have "get (apply_updates c (bs @ [Reset]) (state c)) ''on'' = x"
      by (rule apply_updates_reset_last)
    with e show "flag ?c' = x" by (simp add: flag_def)
  qed
  have sf: "as = [Flip] \<longrightarrow> toggle c = Inr ?c' \<and> flag ?c' = js_not (flag c)"
    using toggle_eq [OF assms(1)] by (auto simp: flag_def get_def)
  have sr: "as = [Reset] \<longrightarrow> reset c = Inr ?c' \<and> flag ?c' = x"
  proof
    assume e: "as = [Reset]"
    with assms(2) have r: "getp (props c) ''onReset'' = JFn r" and i: "initialState c = Some i"
      and x: "i ''on'' = Some x" by simp_all
    from reset_eq [OF r i] x e i show "reset c = Inr ?c' \<and> flag ?c' = x"
      by (simp add: flag_def get_def)
  qed
  show ?thesis
    by (intro exI [of _ ?c'] conjI) (rule b, rule c, rule n, rule lf, rule lr, rule sf, rule sr)
qed

theorem notifications_in_batch_witness:
  "\<exists>c'. batch [Flip, Reset, Flip] (Toggle StateInitializers usage_props) = Inr c'
        \<and> flag c' = Val (JBool True)
        \<and> calls c' = [(''logToggle'', [Val (JBool True)]), (''logReset'', [Val (JBool True)]),
                       (''logToggle'', [Val (JBool True)])]
        \<and> notifications ''logToggle'' c' = [[Val (JBool True)], [Val (JBool True)]]
        \<and> notifications ''logReset'' c' = [[Val (JBool True)]]"
proof -
  let ?c = "Toggle StateInitializers usage_props"
  let ?i = "[''on'' \<mapsto> Val (JBool False)]"
  have h: "getp (props ?c) ''onToggle'' = JFn ''logToggle''" by (simp add: eval_defs)
  have a: "Reset \<in> set [Flip, Reset, Flip] \<longrightarrow>
             variant ?c = StateInitializers \<and> getp (props ?c) ''onReset'' = JFn ''logReset''
             \<and> initialState ?c = Some ?i \<and> ?i ''on'' = Some (Val (JBool False))"
    by (simp add: eval_defs)
  have d: "''logToggle'' \<noteq> ''logReset''" by simp
  from notifications_in_batch [OF h a] obtain c' where
    1: "batch [Flip, Reset, Flip] ?c = Inr c'"
    and 2: "calls c' = calls ?c @ map (\<lambda>a. (case a of Flip \<Rightarrow> ''logToggle'' | Reset \<Rightarrow> ''logReset'', [flag c']))
                                  [Flip, Reset, Flip]"
    and 3: "''logToggle'' \<noteq> ''logReset'' \<longrightarrow>
         notifications ''logToggle'' c' =
           notifications ''logToggle'' ?c @ replicate (count_list [Flip, Reset, Flip] Flip) [flag c']
         \<and> notifications ''logReset'' c' =
           notifications ''logReset'' ?c @ replicate (count_list [Flip, Reset, Flip] Reset) [flag c']"
    and 4: "\<forall>bs. [Flip, Reset, Flip] = bs @ [Flip] \<longrightarrow>
              flag c' = js_not (get (apply_updates ?c bs (state ?c)) ''on'')"
    by blast
  from 4 have "flag c' = js_not (get (apply_updates ?c [Flip, Reset] (state ?c)) ''on'')" by simp
  then have f: "flag c' = Val (JBool True)" by (simp add: eval_defs)
  have n: "notifications g ?c = []" "calls ?c = []" for g
    by (simp_all add: notifications_def Let_def)
  from 1 2 3 d f n show ?thesis
    by (intro exI [of _ c']) (simp add: numeral_2_eq_2)
qed

text \<open>
  Counterexample to C5 as stated: \<open>reset\<close> then \<open>toggle\<close> in one event handler
  (the closure that \<open>getTogglerProps({onClick: reset})\<close> returns). The restored value
  is \<open>false\<close>, but \<open>onReset\<close> is handed \<open>true\<close>, the flag after the flip.
\<close>

theorem reset_notification_counterexample:
  "map_sum id calls (batch [Reset, Flip] (Toggle StateInitializers usage_props)) =
     Inr [(''logReset'', [Val (JBool True)]), (''logToggle'', [Val (JBool True)])]
   \<and> flag_after [Reset] (Toggle StateInitializers usage_props) = Inr (Val (JBool False))
   \<and> getTogglerProps (Toggle StateInitializers usage_props) (Some [''onClick'' \<mapsto> ResetFn]) ''onClick''
       = Some (CallAll [ResetFn, ToggleFn])
   \<and> handle (Toggle StateInitializers usage_props) (CallAll [ResetFn, ToggleFn]) [] =
       batch [Reset, Flip] (Toggle StateInitializers usage_props)"
  by (simp add: eval_defs eval_batch getTogglerProps_def map_add_def restrict_map_def)

text \<open>
  Claim C6 (amended). Only the StateInitializers class takes its initial flag from the
  caller: it is the \<open>initialOn\<close> prop, and \<open>false\<close> when that prop is
  \<open>undefined\<close>. The four other classes start with \<open>on = false\<close> whatever props
  they are given.
\<close>

theorem initial_flag:
  "flag (Toggle v p) =
     Val (if v = StateInitializers \<and> getp p ''initialOn'' \<noteq> JUndefined
          then getp p ''initialOn'' else JBool False)"
  by (rule flag_Toggle)

text \<open>
  Counterexample to C6 as stated: passing \<open>initialOn = true\<close> to the PropCollections
  class leaves the flag \<open>false\<close>.
\<close>

theorem initial_flag_not_configurable_counterexample:
  "flag (Toggle PropCollections [''initialOn'' \<mapsto> JBool True]) = Val (JBool False)"
  by (simp add: flag_def get_def)

text \<open>
  Claim C7, on the code as it is. The render function of the PropCollections class is
  handed an object with the two keys \<open>on\<close> and \<open>toggle\<close>: its \<open>togglerProps\<close>
  reads as \<open>undefined\<close>, in every state.
\<close>

theorem render_PropCollections_keys:
  "render_PropCollections c dom = {''on'', ''toggle''}
   \<and> render_PropCollections c (\<lambda>arg. arg ''togglerProps'') = None"
  by (auto simp: render_PropCollections_def)

text \<open>
  Claim C8 (amended). Let a Toggle of any class be constructed (for StateInitializers,
  with a boolean \<open>initialOn\<close> or none) and taken through any sequence of flips and
  resets that succeeds. Then the flag is a boolean; a flip inverts it; and a reset, which
  only StateInitializers has, sets it to the initial flag, so that a reset inverts the
  flag exactly when the flag differs from the initial one.
\<close>

theorem reachable_flag:
  assumes "v = StateInitializers \<longrightarrow> boolean_initialOn p"
    and "run as (Toggle v p) = Inr c"
  shows "is_boolean (flag c)
       \<and> (\<forall>c'. step Flip c = Inr c' \<longrightarrow> flag c' = js_not (flag c))
       \<and> (\<forall>c'. step Reset c = Inr c' \<longrightarrow>
             v = StateInitializers \<and> flag c' = flag (Toggle v p)
             \<and> ((flag c' = js_not (flag c)) = (flag c \<noteq> flag (Toggle v p))))"
proof -
  have b: "is_boolean (flag c)"
    using assms(2) flag_Toggle_boolean [OF assms(1)] initialState_Toggle_boolean [OF assms(1)]
    by (rule run_boolean)
  have fr: "variant c = v" "initialState c = initialState (Toggle v p)"
    using run_frame [OF assms(2)] by (simp_all add: variant_Toggle)
  have flip: "flag c' = js_not (flag c)" if "step Flip c = Inr c'" for c'
    using that by (simp add: toggle_flag)
  have rst: "v = StateInitializers \<and> flag c' = flag (Toggle v p)
             \<and> ((flag c' = js_not (flag c)) = (flag c \<noteq> flag (Toggle v p)))"
    if "step Reset c = Inr c'" for c'
  proof -
    from that fr(1) have v: "v = StateInitializers" and r: "reset c = Inr c'"
      by (simp_all split: if_splits)
    have i: "initialState c = Some (state (Toggle v p))"
      using fr(2) v by (simp add: Let_def)
    have "state (Toggle v p) ''on'' = Some (flag (Toggle v p))"
      using v by (simp add: flag_def get_def Let_def)
    from reset_initial [OF r i this] have e: "flag c' = flag (Toggle v p)" .
    from b obtain x where x: "flag c = Val (JBool x)" by (auto simp: is_boolean_iff)
    from flag_Toggle_boolean [OF assms(1)] obtain y where y: "flag (Toggle v p) = Val (JBool y)"
      by (auto simp: is_boolean_iff)
    show ?thesis using v e x y by (auto simp: js_not_def)
  qed
  from b flip rst show ?thesis by blast
qed

theorem reachable_flag_witness:
  "boolean_initialOn usage_props
   \<and> flag_after [Flip, Reset, Flip] (Toggle StateInitializers usage_props) = Inr (Val (JBool True))
   \<and> is_boolean (Val (JBool True))"
proof -
  have a: "StateInitializers = StateInitializers \<longrightarrow> boolean_initialOn usage_props"
    by (simp add: boolean_initialOn_def getp_def usage_props_def)
  have "\<exists>c. run [Flip, Reset, Flip] (Toggle StateInitializers usage_props) = Inr c
           \<and> flag c = Val (JBool True)"
    by (simp add: eval_defs)
  then obtain c where r: "run [Flip, Reset, Flip] (Toggle StateInitializers usage_props) = Inr c"
    and f: "flag c = Val (JBool True)" by blast
  from reachable_flag [OF a r] have "is_boolean (flag c)" by blast
  with a r f show ?thesis by (simp add: flag_after_def)
qed

text \<open>
  Counterexample to C8 as stated: in the StateInitializers class, after one flip from
  \<open>false\<close> the flag is \<open>true\<close>, and \<open>reset\<close> then makes it \<open>false\<close>: an
  operation other than the flip has inverted the flag.
\<close>

theorem reset_inverts_counterexample:
  "flag_after [Flip] (Toggle StateInitializers usage_props) = Inr (Val (JBool True))
   \<and> flag_after [Flip, Reset] (Toggle StateInitializers usage_props) = Inr (Val (JBool False))"
  by (simp add: eval_defs)

text \<open>
  Claim C9. In the compound-component files (FlexibleCompound, ProviderPattern), for
  every context object whose \<open>on\<close> is the boolean \<open>b\<close>: \<open>Toggle.On\<close> renders its
  children when \<open>b\<close> is true and nothing otherwise, \<open>Toggle.Off\<close> renders its
  children when \<open>b\<close> is false and nothing otherwise. For any context value at all,
  \<open>On\<close> and \<open>Off\<close> never both render their children.
\<close>

theorem on_off_exclusive:
  "(get ob ''on'' = Val (JBool b) \<longrightarrow>
      Toggle_On kids (CtxObj ob) = Inr (if b then Some kids else None)
    \<and> Toggle_Off kids (CtxObj ob) = Inr (if b then None else Some kids))
   \<and> \<not> (Toggle_On kids cv = Inr (Some kids) \<and> Toggle_Off kids cv = Inr (Some kids))"
  using On_Off_not_both [of kids cv]
  by (simp add: Toggle_On_def Toggle_Off_def ToggleConsumer_def)

theorem on_off_exclusive_witness:
  "Toggle_On ''The button is on'' (CtxObj [''on'' \<mapsto> Val (JBool True), ''toggle'' \<mapsto> ToggleFn])
     = Inr (Some ''The button is on'')
   \<and> Toggle_Off ''The button is off'' (CtxObj [''on'' \<mapsto> Val (JBool True), ''toggle'' \<mapsto> ToggleFn])
     = Inr None"
proof -
  let ?ob = "[''on'' \<mapsto> Val (JBool True), ''toggle'' \<mapsto> ToggleFn]"
  have g: "get ?ob ''on'' = Val (JBool True)" by (simp add: get_def)
  from on_off_exclusive [of ?ob True "''The button is on''" "CtxObj ?ob"] g
  have 1: "Toggle_On ''The button is on'' (CtxObj ?ob) = Inr (Some ''The button is on'')" by simp
  from on_off_exclusive [of ?ob True "''The button is off''" "CtxObj ?ob"] g
  have 2: "Toggle_Off ''The button is off'' (CtxObj ?ob) = Inr None" by simp
  from 1 2 show ?thesis by simp
qed

text \<open>
  Claim C10. For every argument object \<open>a\<close> of \<open>getTogglerProps\<close>:
  \<^item> \<open>'aria-pressed'\<close> of the result is the current flag, unless \<open>a\<close> has that key,
    whose value then wins;
  \<^item> \<open>onClick\<close> of the result is the closure \<open>callAll(a.onClick, this.toggle)\<close>;
  \<^item> every other key of \<open>a\<close> is in the result with the caller's value, and the result
    has no further keys;
  \<^item> with no argument the result is that for \<open>{}\<close>;
  \<^item> called with \<open>args\<close>, the closure calls \<open>a.onClick\<close> with \<open>args\<close> when it is
    truthy, then \<open>toggle\<close> with \<open>args\<close> (which \<open>toggle\<close> ignores); when
    \<open>a.onClick\<close> is a function \<open>g\<close> of the caller's, that is: \<open>g(args)\<close> is
    recorded, then the component is toggled.
\<close>

theorem getTogglerProps_contract:
  "getTogglerProps c (Some a) ''aria-pressed'' =
     Some (case a ''aria-pressed'' of None \<Rightarrow> flag c | Some v \<Rightarrow> v)
   \<and> getTogglerProps c (Some a) ''onClick'' = Some (CallAll [get a ''onClick'', ToggleFn])
   \<and> (\<forall>k v. k \<noteq> ''onClick'' \<and> a k = Some v \<longrightarrow> getTogglerProps c (Some a) k = Some v)
   \<and> (\<forall>k. k \<noteq> ''onClick'' \<and> k \<noteq> ''aria-pressed'' \<and> a k = None \<longrightarrow>
          getTogglerProps c (Some a) k = None)
   \<and> getTogglerProps c None = getTogglerProps c (Some Map.empty)
   \<and> call c (CallAll [get a ''onClick'', ToggleFn]) args =
       (if truthy_entry (get a ''onClick'')
        then (case call c (get a ''onClick'') args of
                Inl e \<Rightarrow> Inl e
              | Inr c' \<Rightarrow> call c' ToggleFn args)
        else call c ToggleFn args)
   \<and> call c ToggleFn args = toggle c
   \<and> (\<forall>g. get a ''onClick'' = Val (JFn g) \<longrightarrow>
          call c (CallAll [get a ''onClick'', ToggleFn]) args =
            toggle (c\<lparr>calls := calls c @ [(g, args)]\<rparr>))"
proof -
  have 1: "getTogglerProps c (Some a) ''aria-pressed'' =
             Some (case a ''aria-pressed'' of None \<Rightarrow> flag c | Some v \<Rightarrow> v)"
    by (rule getTogglerProps_aria)
  have 2: "getTogglerProps c (Some a) ''onClick'' = Some (CallAll [get a ''onClick'', ToggleFn])"
    by (rule getTogglerProps_onClick)
  have 3: "\<forall>k v. k \<noteq> ''onClick'' \<and> a k = Some v \<longrightarrow> getTogglerProps c (Some a) k = Some v"
    using getTogglerProps_override [of _ a _ c] by blast
  have 4: "\<forall>k. k \<noteq> ''onClick'' \<and> k \<noteq> ''aria-pressed'' \<and> a k = None \<longrightarrow>
             getTogglerProps c (Some a) k = None"
    using getTogglerProps_absent [of _ a c] by blast
  have 5: "getTogglerProps c None = getTogglerProps c (Some Map.empty)"
    by (rule getTogglerProps_default)
  have 6: "call c (CallAll [get a ''onClick'', ToggleFn]) args =
       (if truthy_entry (get a ''onClick'')
        then (case call c (get a ''onClick'') args of
                Inl e \<Rightarrow> Inl e
              | Inr c' \<Rightarrow> call c' ToggleFn args)
        else call c ToggleFn args)"
    by (rule call_onClick)
  have 7: "call c ToggleFn args = toggle c" by simp
  have 8: "\<forall>g. get a ''onClick'' = Val (JFn g) \<longrightarrow>
          call c (CallAll [get a ''onClick'', ToggleFn]) args =
            toggle (c\<lparr>calls := calls c @ [(g, args)]\<rparr>)"
  proof (intro allI impI)
    fix g assume "get a ''onClick'' = Val (JFn g)"
    then show "call c (CallAll [get a ''onClick'', ToggleFn]) args =
                 toggle (c\<lparr>calls := calls c @ [(g, args)]\<rparr>)"
      by (simp only: call_onClick_fn)
  qed
  show ?thesis
    by (intro conjI) (rule 1, rule 2, rule 3, rule 4, rule 5, rule 6, rule 7, rule 8)
qed

theorem getTogglerProps_contract_witness:
  "getTogglerProps (Toggle StateInitializers usage_props)
     (Some [''onClick'' \<mapsto> Val (JFn ''handleClick''), ''on'' \<mapsto> Val (JBool False)]) ''on''
     = Some (Val (JBool False))
   \<and> flag_after [] (Toggle StateInitializers usage_props) = Inr (Val (JBool False))
   \<and> (\<exists>c'. call (Toggle StateInitializers usage_props)
              (CallAll [Val (JFn ''handleClick''), ToggleFn]) [Val (JStr ''click'')] = Inr c'
          \<and> flag c' = Val (JBool True)
          \<and> calls c' = [(''handleClick'', [Val (JStr ''click'')]), (''logToggle'', [Val (JBool True)])])"
proof -
  let ?c = "Toggle StateInitializers usage_props"
  let ?a = "[''onClick'' \<mapsto> Val (JFn ''handleClick''), ''on'' \<mapsto> Val (JBool False)]"
  let ?args = "[Val (JStr ''click'')]"
  note t = getTogglerProps_contract [of ?c ?a ?args]
  have k: "''on'' \<noteq> ''onClick'' \<and> ?a ''on'' = Some (Val (JBool False))" by simp
  have g: "get ?a ''onClick'' = Val (JFn ''handleClick'')" by (simp add: get_def)
  note t3 = t [THEN conjunct2, THEN conjunct2, THEN conjunct1, rule_format, OF k]
  note t8 = t [THEN conjunct2, THEN conjunct2, THEN conjunct2, THEN conjunct2, THEN conjunct2,
      THEN conjunct2, THEN conjunct2, rule_format, OF g]
  have 1: "getTogglerProps ?c (Some ?a) ''on'' = Some (Val (JBool False))" by (rule t3)
  have 2: "call ?c (CallAll [get ?a ''onClick'', ToggleFn]) ?args =
             toggle (?c\<lparr>calls := calls ?c @ [(''handleClick'', ?args)]\<rparr>)" by (rule t8)
  have 3: "\<exists>c'. toggle (?c\<lparr>calls := calls ?c @ [(''handleClick'', ?args)]\<rparr>) = Inr c'
          \<and> flag c' = Val (JBool True)
          \<and> calls c' = [(''handleClick'', ?args), (''logToggle'', [Val (JBool True)])]"
    by (simp add: eval_defs)
  have 4: "flag_after [] ?c = Inr (Val (JBool False))" by (simp add: eval_defs)
  from 3 obtain c' where c':
    "toggle (?c\<lparr>calls := calls ?c @ [(''handleClick'', ?args)]\<rparr>) = Inr c'"
    "flag c' = Val (JBool True)"
    "calls c' = [(''handleClick'', ?args), (''logToggle'', [Val (JBool True)])]" by blast
  from 2 c'(1) have "call ?c (CallAll [Val (JFn ''handleClick''), ToggleFn]) ?args = Inr c'"
    by (simp only: g)
  with c'(2,3) have 5:
    "\<exists>c'. call ?c (CallAll [Val (JFn ''handleClick''), ToggleFn]) ?args = Inr c'
          \<and> flag c' = Val (JBool True)
          \<and> calls c' = [(''handleClick'', ?args), (''logToggle'', [Val (JBool True)])]" by blast
  show ?thesis by (intro conjI) (rule 1, rule 4, rule 5)
qed

end
